theory Spec2Isabelle
  imports Main "HOL-Library.Word" "HOL-Library.Multiset"
begin

section \<open>The topic cache of rmw\_fastrtps\_shared\_cpp\<close>

text \<open>
  Source: \<^verbatim>\<open>rmw_fastrtps_shared_cpp/include/rmw_fastrtps_shared_cpp/topic_cache.hpp\<close>.

  \<^verbatim>\<open>NameToNamesMap\<close> is \<^verbatim>\<open>std::unordered_map<std::string, std::vector<std::string>>\<close>;
  \<^verbatim>\<open>ParticipantTopicMap\<close> is \<^verbatim>\<open>std::map<GUID_t, NameToNamesMap>\<close>. Both are modelled as
  partial functions, a vector as a list. The class \<^verbatim>\<open>TopicCache\<close> is the record of its two
  data members; every member function takes the cache and returns the cache it leaves. The
  mutex is held for the whole body of every member function, so one call is one step of the
  sequential model below.
\<close>

type_synonym NameToNamesMap = "string \<rightharpoonup> string list"

record 'g TopicCache =
  topic_to_types :: NameToNamesMap
  participant_to_topics :: "'g \<rightharpoonup> NameToNamesMap"

text \<open>A default-constructed \<^verbatim>\<open>TopicCache\<close>: both maps empty.\<close>

definition empty_cache :: "'g TopicCache" where
  "empty_cache = \<lparr>topic_to_types = Map.empty, participant_to_topics = Map.empty\<rparr>"

text \<open>
  \<^verbatim>\<open>std::vector::erase(std::find(v.begin(), v.end(), x))\<close>: \<^verbatim>\<open>find\<close> returns the first
  position holding \<^verbatim>\<open>x\<close>, or \<^verbatim>\<open>v.end()\<close>; \<^verbatim>\<open>erase\<close> requires a dereferenceable iterator,
  so erasing \<^verbatim>\<open>v.end()\<close> is undefined behaviour, which is an error value here.
\<close>

datatype error = UndefinedBehaviour

definition erase_find :: "string list \<Rightarrow> string \<Rightarrow> error + string list" where
  "erase_find type_vec type_name =
     (if type_name \<in> set type_vec then Inr (remove1 type_name type_vec)
      else Inl UndefinedBehaviour)"

text \<open>
  \<^verbatim>\<open>initializeTopic\<close> and \<^verbatim>\<open>initializeParticipantMap\<close>: insert an empty value under a key
  that is absent.
\<close>

definition initializeTopic :: "string \<Rightarrow> NameToNamesMap \<Rightarrow> NameToNamesMap" where
  "initializeTopic topic_name topic_to_types' =
     (if topic_to_types' topic_name = None then topic_to_types'(topic_name \<mapsto> [])
      else topic_to_types')"

definition initializeParticipantMap ::
  "('g \<rightharpoonup> NameToNamesMap) \<Rightarrow> 'g \<Rightarrow> ('g \<rightharpoonup> NameToNamesMap)" where
  "initializeParticipantMap m guid = (if m guid = None then m(guid \<mapsto> Map.empty) else m)"

text \<open>
  \<^verbatim>\<open>m[guid]\<close> on the participant map, read: the value under the key, the default-constructed
  (empty) map when the key is absent. Every use below writes the value back under the key,
  which is also what the insertion done by \<^verbatim>\<open>operator[]\<close> amounts to.
\<close>

definition at_guid :: "('g \<rightharpoonup> NameToNamesMap) \<Rightarrow> 'g \<Rightarrow> NameToNamesMap" where
  "at_guid m guid = (case m guid of None \<Rightarrow> Map.empty | Some topics \<Rightarrow> topics)"

text \<open>\<^verbatim>\<open>m[topic_name].push_back(type_name)\<close> on a \<^verbatim>\<open>NameToNamesMap\<close>.\<close>

definition push_back_at :: "NameToNamesMap \<Rightarrow> string \<Rightarrow> string \<Rightarrow> NameToNamesMap" where
  "push_back_at m topic_name type_name =
     m(topic_name \<mapsto> (case m topic_name of None \<Rightarrow> [] | Some type_vec \<Rightarrow> type_vec) @ [type_name])"

text \<open>
  \<^verbatim>\<open>addTopic\<close>. The conversion \<^verbatim>\<open>iHandle2GUID\<close> from an instance handle to a GUID is declared
  outside the two source files and is a parameter. The debug log is no effect on the cache.
\<close>

definition addTopic ::
  "('h \<Rightarrow> 'g) \<Rightarrow> 'g TopicCache \<Rightarrow> 'h \<Rightarrow> string \<Rightarrow> string \<Rightarrow> bool \<times> 'g TopicCache" where
  "addTopic iHandle2GUID c rtpsParticipantKey topic_name type_name =
     (let t1 = initializeTopic topic_name (topic_to_types c);
          guid = iHandle2GUID rtpsParticipantKey;
          p1 = initializeParticipantMap (participant_to_topics c) guid;
          p2 = p1(guid \<mapsto> initializeTopic topic_name (at_guid p1 guid));
          t2 = push_back_at t1 topic_name type_name;
          p3 = p2(guid \<mapsto> push_back_at (at_guid p2 guid) topic_name type_name)
      in (True, \<lparr>topic_to_types = t2, participant_to_topics = p3\<rparr>))"

text \<open>
  \<^verbatim>\<open>removeTopic\<close>. The global half (lines 178 to 184) erases the \<^verbatim>\<open>find\<close> result and drops
  the topic key when its vector is empty. The local half (lines 186 to 198) runs when the
  participant key and, under it, the topic key exist; otherwise only a debug message is logged.
\<close>

definition removeTopic ::
  "('h \<Rightarrow> 'g) \<Rightarrow> 'g TopicCache \<Rightarrow> 'h \<Rightarrow> string \<Rightarrow> string \<Rightarrow> error + (bool \<times> 'g TopicCache)" where
  "removeTopic iHandle2GUID c rtpsParticipantKey topic_name type_name =
     (case topic_to_types c topic_name of
        None \<Rightarrow> Inr (False, c)
      | Some type_vec \<Rightarrow>
          (case erase_find type_vec type_name of
             Inl e \<Rightarrow> Inl e
           | Inr type_vec' \<Rightarrow>
               (let t1 = (if type_vec' = [] then (topic_to_types c)(topic_name := None)
                          else (topic_to_types c)(topic_name \<mapsto> type_vec'));
                    guid = iHandle2GUID rtpsParticipantKey
                in (case participant_to_topics c guid of
                      None \<Rightarrow> Inr (True, c\<lparr>topic_to_types := t1\<rparr>)
                    | Some topics \<Rightarrow>
                        (case topics topic_name of
                           None \<Rightarrow> Inr (True, c\<lparr>topic_to_types := t1\<rparr>)
                         | Some local_vec \<Rightarrow>
                             (case erase_find local_vec type_name of
                                Inl e \<Rightarrow> Inl e
                              | Inr local_vec' \<Rightarrow>
                                  (let topics' = (if local_vec' = [] then topics(topic_name := None)
                                                  else topics(topic_name \<mapsto> local_vec'));
                                       p1 = (if topics' = Map.empty
                                             then (participant_to_topics c)(guid := None)
                                             else (participant_to_topics c)(guid \<mapsto> topics'))
                                   in Inr (True, \<lparr>topic_to_types = t1,
                                                  participant_to_topics = p1\<rparr>))))))))"

text \<open>
  \<^verbatim>\<open>countParticipants\<close>. The counter \<^verbatim>\<open>count\<close> (\<open>cnt\<close> below) is a \<^verbatim>\<open>size_t\<close>: a word of
  the platform's width, whose addition wraps. The loop body looks the name up with
  \<^verbatim>\<open>find\<close>, which inserts nothing, and adds the \<^verbatim>\<open>size()\<close> of the vector found.
\<close>

fun countParticipants_loop ::
  "'g TopicCache \<Rightarrow> string list \<Rightarrow> 'w::len word \<Rightarrow> 'w word \<times> 'g TopicCache" where
  "countParticipants_loop c [] cnt = (cnt, c)"
| "countParticipants_loop c (topic_fqdn # fqdns) cnt =
     (case topic_to_types c topic_fqdn of
        None \<Rightarrow> countParticipants_loop c fqdns cnt
      | Some type_vec \<Rightarrow> countParticipants_loop c fqdns (cnt + of_nat (length type_vec)))"

definition countParticipants ::
  "'g TopicCache \<Rightarrow> string list \<Rightarrow> 'w::len word \<times> 'g TopicCache" where
  "countParticipants c fqdns = countParticipants_loop c fqdns 0"

text \<open>
  \<^verbatim>\<open>cloneParticipantTopics\<close>: the second component of the result is the content of the
  location \<^verbatim>\<open>*topics\<close> after the call, \<^verbatim>\<open>topics\<close> its content before.
\<close>

definition cloneParticipantTopics ::
  "'g TopicCache \<Rightarrow> 'g \<Rightarrow> NameToNamesMap \<Rightarrow> bool \<times> NameToNamesMap \<times> 'g TopicCache" where
  "cloneParticipantTopics c participant_guid topics =
     (case participant_to_topics c participant_guid of
        None \<Rightarrow> (False, topics, c)
      | Some found \<Rightarrow> (True, found, c))"

definition cloneTopicToTypes :: "'g TopicCache \<Rightarrow> NameToNamesMap \<times> 'g TopicCache" where
  "cloneTopicToTypes c = (topic_to_types c, c)"

section \<open>Views of a cache used to state the properties\<close>

text \<open>The global TypeList of a topic, and a participant's local one; empty when a key is absent.\<close>

definition global_types :: "'g TopicCache \<Rightarrow> string \<Rightarrow> string list" where
  "global_types c topic_name =
     (case topic_to_types c topic_name of None \<Rightarrow> [] | Some type_vec \<Rightarrow> type_vec)"

definition local_types :: "'g TopicCache \<Rightarrow> 'g \<Rightarrow> string \<Rightarrow> string list" where
  "local_types c guid topic_name =
     (case participant_to_topics c guid of
        None \<Rightarrow> []
      | Some topics \<Rightarrow> (case topics topic_name of None \<Rightarrow> [] | Some type_vec \<Rightarrow> type_vec))"

text \<open>
  The count the specification asks of \<^verbatim>\<open>countParticipants\<close>: over the candidate names that are
  keys of the global map, in their order, the sum of the lengths of their TypeLists.
\<close>

definition registrations_of :: "'g TopicCache \<Rightarrow> string list \<Rightarrow> nat" where
  "registrations_of c fqdns =
     (\<Sum>topic_fqdn \<leftarrow> filter (\<lambda>n. n \<in> dom (topic_to_types c)) fqdns.
        length (global_types c topic_fqdn))"

text \<open>
  The guard of the local half of \<^verbatim>\<open>removeTopic\<close> (lines 188 and 189): the participant is a key
  and the topic is a key under it.
\<close>

definition has_local_entry :: "'g TopicCache \<Rightarrow> 'g \<Rightarrow> string \<Rightarrow> bool" where
  "has_local_entry c guid topic_name =
     (case participant_to_topics c guid of
        None \<Rightarrow> False
      | Some topics \<Rightarrow> topics topic_name \<noteq> None)"


text \<open>
  The multiset union, over the participants that are keys, of their local TypeLists of a topic.
\<close>

definition participants_total :: "'g TopicCache \<Rightarrow> string \<Rightarrow> string multiset" where
  "participants_total c topic_name =
     (\<Sum>guid \<in> dom (participant_to_topics c). mset (local_types c guid topic_name))"

text \<open>
  I4 (which contains I2): no topic key, global or under a participant, maps to an empty
  TypeList, and no participant key maps to an empty map.
\<close>

definition no_empty_collections :: "'g TopicCache \<Rightarrow> bool" where
  "no_empty_collections c \<longleftrightarrow>
     (\<forall>t v. topic_to_types c t = Some v \<longrightarrow> v \<noteq> []) \<and>
     (\<forall>g m. participant_to_topics c g = Some m \<longrightarrow>
        m \<noteq> Map.empty \<and> (\<forall>t v. m t = Some v \<longrightarrow> v \<noteq> []))"

text \<open>
  The caches reachable from the empty one by calls of \<^verbatim>\<open>addTopic\<close> and \<^verbatim>\<open>removeTopic\<close>. A call
  of \<^verbatim>\<open>removeTopic\<close> whose behaviour is undefined leaves no cache to go on from.
\<close>

inductive reachable :: "('h \<Rightarrow> 'g) \<Rightarrow> 'g TopicCache \<Rightarrow> bool"
  for iHandle2GUID :: "'h \<Rightarrow> 'g" where
  initial: "reachable iHandle2GUID empty_cache"
| add: "reachable iHandle2GUID c \<Longrightarrow>
        reachable iHandle2GUID (snd (addTopic iHandle2GUID c k t ty))"
| remove: "reachable iHandle2GUID c \<Longrightarrow> removeTopic iHandle2GUID c k t ty = Inr (b, c') \<Longrightarrow>
        reachable iHandle2GUID c'"

text \<open>
  The same, where every call of \<^verbatim>\<open>removeTopic\<close> names a participant whose local TypeList of
  the topic holds the type name: the removal withdraws a registration that this participant
  made.
\<close>

inductive reachable_matched :: "('h \<Rightarrow> 'g) \<Rightarrow> 'g TopicCache \<Rightarrow> bool"
  for iHandle2GUID :: "'h \<Rightarrow> 'g" where
  initial: "reachable_matched iHandle2GUID empty_cache"
| add: "reachable_matched iHandle2GUID c \<Longrightarrow>
        reachable_matched iHandle2GUID (snd (addTopic iHandle2GUID c k t ty))"
| remove: "reachable_matched iHandle2GUID c \<Longrightarrow>
        ty \<in> set (local_types c (iHandle2GUID k) t) \<Longrightarrow>
        removeTopic iHandle2GUID c k t ty = Inr (b, c') \<Longrightarrow>
        reachable_matched iHandle2GUID c'"

text \<open>
  Two caches to compare up to the order of the TypeLists: the same keys at both levels, and
  under each key the same multiset of type names.
\<close>

definition same_up_to_order :: "'g TopicCache \<Rightarrow> 'g TopicCache \<Rightarrow> bool" where
  "same_up_to_order c c' \<longleftrightarrow>
     (\<forall>t. map_option mset (topic_to_types c t) = map_option mset (topic_to_types c' t)) \<and>
     (\<forall>g. rel_option (\<lambda>m m'. \<forall>t. map_option mset (m t) = map_option mset (m' t))
            (participant_to_topics c g) (participant_to_topics c' g))"

subsection \<open>Example caches\<close>

text \<open>
  GUIDs are natural numbers and the conversion is the identity. Participant 1 registers
  \<^verbatim>\<open>String\<close> on \<^verbatim>\<open>/chatter\<close>; then either participant 1 or participant 2 registers \<^verbatim>\<open>Int32\<close> on
  the same topic.
\<close>

definition one_registration :: "nat TopicCache" where
  "one_registration = snd (addTopic id empty_cache 1 ''/chatter'' ''String'')"

definition two_types :: "nat TopicCache" where
  "two_types = snd (addTopic id one_registration 1 ''/chatter'' ''Int32'')"

definition two_participants :: "nat TopicCache" where
  "two_participants = snd (addTopic id one_registration 2 ''/chatter'' ''Int32'')"


text \<open>
  From \<open>two_participants\<close>, participant 1 removes its \<^verbatim>\<open>String\<close>: both halves run and the
  participant key goes.
\<close>

definition one_withdrawn :: "nat TopicCache" where
  "one_withdrawn =
     \<lparr>topic_to_types = [''/chatter'' \<mapsto> [''Int32'']],
      participant_to_topics = [2 \<mapsto> [''/chatter'' \<mapsto> [''Int32'']]]\<rparr>"

text \<open>
  From \<open>one_registration\<close>, participant 2 (which holds nothing) removes \<^verbatim>\<open>String\<close>: the topic
  leaves the global map and participant 1 keeps its entry.
\<close>

definition ghost_entry :: "nat TopicCache" where
  "ghost_entry =
     \<lparr>topic_to_types = Map.empty,
      participant_to_topics = [1 \<mapsto> [''/chatter'' \<mapsto> [''String'']]]\<rparr>"

text \<open>\<open>two_types\<close> with the two TypeLists in the other order.\<close>

definition reordered :: "nat TopicCache" where
  "reordered =
     \<lparr>topic_to_types = [''/chatter'' \<mapsto> [''Int32'', ''String'']],
      participant_to_topics = [1 \<mapsto> [''/chatter'' \<mapsto> [''Int32'', ''String'']]]\<rparr>"

section \<open>addTopic\<close>

lemma addTopic_global:
  "topic_to_types (snd (addTopic h2g c k t ty)) =
     (topic_to_types c)(t \<mapsto> global_types c t @ [ty])"
  by (auto simp: addTopic_def Let_def initializeTopic_def push_back_at_def global_types_def
      split: option.splits)

lemma addTopic_local:
  "participant_to_topics (snd (addTopic h2g c k t ty)) =
     (participant_to_topics c)
       (h2g k \<mapsto> (at_guid (participant_to_topics c) (h2g k))(t \<mapsto> local_types c (h2g k) t @ [ty]))"
  by (auto simp: addTopic_def Let_def initializeTopic_def initializeParticipantMap_def
      push_back_at_def at_guid_def local_types_def split: option.splits)

lemma addTopic_fst: "fst (addTopic h2g c k t ty) = True"
  by (simp add: addTopic_def Let_def)

lemma global_types_addTopic:
  "global_types (snd (addTopic h2g c k t ty)) t' =
     (if t' = t then global_types c t @ [ty] else global_types c t')"
  by (simp add: global_types_def addTopic_global)

lemma local_types_addTopic:
  "local_types (snd (addTopic h2g c k t ty)) g' t' =
     (if g' = h2g k \<and> t' = t then local_types c (h2g k) t @ [ty] else local_types c g' t')"
  by (auto simp: local_types_def addTopic_local at_guid_def split: option.splits)

text \<open>
  C8. \<^verbatim>\<open>addTopic\<close> returns true on every cache and every input. In the cache it leaves, the
  global TypeList of \<^verbatim>\<open>topic_name\<close> is the old one (empty when the topic was no key) with
  \<^verbatim>\<open>type_name\<close> appended, and every other global topic is as before; the participant's local
  TypeList of \<^verbatim>\<open>topic_name\<close> is the old one (empty when the participant or its topic was no
  key) with \<^verbatim>\<open>type_name\<close> appended, every other topic of that participant is as before, and
  every other participant is as before.
\<close>

theorem addTopic_effect:
  "fst (addTopic h2g c k t ty) = True \<and>
   (\<forall>t'. topic_to_types (snd (addTopic h2g c k t ty)) t' =
      (if t' = t then Some (global_types c t @ [ty]) else topic_to_types c t')) \<and>
   (\<forall>g'. participant_to_topics (snd (addTopic h2g c k t ty)) g' =
      (if g' = h2g k
       then Some (\<lambda>t'. if t' = t then Some (local_types c (h2g k) t @ [ty])
                       else at_guid (participant_to_topics c) (h2g k) t')
       else participant_to_topics c g'))"
  by (auto simp: addTopic_fst addTopic_global addTopic_local)

section \<open>The example caches, evaluated\<close>

lemma one_registration_eq:
  "one_registration = \<lparr>topic_to_types = [''/chatter'' \<mapsto> [''String'']],
     participant_to_topics = [1 \<mapsto> [''/chatter'' \<mapsto> [''String'']]]\<rparr>"
  by (simp add: one_registration_def addTopic_def Let_def empty_cache_def initializeTopic_def
      initializeParticipantMap_def at_guid_def push_back_at_def)

lemma two_types_eq:
  "two_types = \<lparr>topic_to_types = [''/chatter'' \<mapsto> [''String'', ''Int32'']],
     participant_to_topics = [1 \<mapsto> [''/chatter'' \<mapsto> [''String'', ''Int32'']]]\<rparr>"
  by (simp add: two_types_def one_registration_eq addTopic_def Let_def initializeTopic_def
      initializeParticipantMap_def at_guid_def push_back_at_def)

lemma two_participants_eq:
  "two_participants = \<lparr>topic_to_types = [''/chatter'' \<mapsto> [''String'', ''Int32'']],
     participant_to_topics = [1 \<mapsto> [''/chatter'' \<mapsto> [''String'']],
                              2 \<mapsto> [''/chatter'' \<mapsto> [''Int32'']]]\<rparr>"
  by (simp add: two_participants_def one_registration_eq addTopic_def Let_def initializeTopic_def
      initializeParticipantMap_def at_guid_def push_back_at_def)

lemma reachable_one_registration: "reachable id one_registration"
  unfolding one_registration_def by (rule reachable.add [OF reachable.initial])

lemma reachable_two_types: "reachable id two_types"
  unfolding two_types_def by (rule reachable.add [OF reachable_one_registration])

lemma reachable_two_participants: "reachable id two_participants"
  unfolding two_participants_def by (rule reachable.add [OF reachable_one_registration])

lemma reachable_matched_one_registration: "reachable_matched id one_registration"
  unfolding one_registration_def by (rule reachable_matched.add [OF reachable_matched.initial])

lemma reachable_matched_two_participants: "reachable_matched id two_participants"
  unfolding two_participants_def
  by (rule reachable_matched.add [OF reachable_matched_one_registration])


lemma removeTopic_two_participants_own:
  "removeTopic id two_participants 1 ''/chatter'' ''String'' = Inr (True, one_withdrawn)"
  by (simp add: removeTopic_def erase_find_def Let_def two_participants_eq one_withdrawn_def)

lemma removeTopic_one_registration_other_participant:
  "removeTopic id one_registration 2 ''/chatter'' ''String'' = Inr (True, ghost_entry)"
  by (simp add: removeTopic_def erase_find_def Let_def one_registration_eq ghost_entry_def)

lemma reachable_matched_one_withdrawn: "reachable_matched id one_withdrawn"
proof -
  have "''String'' \<in> set (local_types two_participants (id 1) ''/chatter'')"
    by (simp add: local_types_def two_participants_eq)
  with reachable_matched_two_participants show ?thesis
    using removeTopic_two_participants_own by (rule reachable_matched.remove)
qed

section \<open>removeTopic on an absent topic\<close>

text \<open>
  C4. When \<^verbatim>\<open>topic_name\<close> is no key of the global map, \<^verbatim>\<open>removeTopic\<close> returns false and
  leaves the cache, both maps, as it was, for every participant and type name.
\<close>

theorem removeTopic_absent_topic:
  "topic_to_types c t = None \<Longrightarrow> removeTopic h2g c k t ty = Inr (False, c)"
  by (simp add: removeTopic_def)

theorem removeTopic_absent_topic_witness:
  "topic_to_types (snd (addTopic (\<lambda>h. h) empty_cache (1::nat) ''/chatter'' ''String'')) ''/rosout''
     = None \<and>
   removeTopic (\<lambda>h. h) (snd (addTopic (\<lambda>h. h) empty_cache (1::nat) ''/chatter'' ''String''))
     (2::nat) ''/rosout'' ''Log''
     = Inr (False, snd (addTopic (\<lambda>h. h) empty_cache (1::nat) ''/chatter'' ''String''))"
proof -
  have absent:
    "topic_to_types (snd (addTopic (\<lambda>h. h) empty_cache (1::nat) ''/chatter'' ''String''))
       ''/rosout'' = None"
    by (simp add: addTopic_global empty_cache_def)
  show ?thesis
    using absent removeTopic_absent_topic [OF absent, of "\<lambda>h. h" 2 "''Log''"] by simp
qed

section \<open>countParticipants\<close>

lemma countParticipants_loop_count:
  "fst (countParticipants_loop c fqdns cnt) = cnt + of_nat (registrations_of c fqdns)"
  by (induction fqdns arbitrary: cnt)
     (auto simp: registrations_of_def global_types_def split: option.splits)

lemma countParticipants_loop_cache: "snd (countParticipants_loop c fqdns cnt) = c"
  by (induction fqdns arbitrary: cnt) (auto split: option.splits)

text \<open>
  C6. On every cache and every sequence of candidate names, \<^verbatim>\<open>countParticipants\<close> returns, as
  a \<^verbatim>\<open>size_t\<close>, the sum over the names that are keys of the global map of the lengths of their
  TypeLists (a name absent from the map adds nothing, a type registered twice is two entries
  of the list); when that sum fits in a \<^verbatim>\<open>size_t\<close> the returned number is the sum.
\<close>

theorem countParticipants_correct:
  "fst (countParticipants c fqdns :: 'w::len word \<times> 'g TopicCache)
     = of_nat (registrations_of c fqdns) \<and>
   (registrations_of c fqdns < 2 ^ LENGTH('w) \<longrightarrow>
    unat (fst (countParticipants c fqdns :: 'w word \<times> 'g TopicCache))
      = registrations_of c fqdns)"
  by (simp add: countParticipants_def countParticipants_loop_count unat_of_nat)


theorem countParticipants_correct_witness:
  "registrations_of two_participants [''/chatter'', ''rt/chatter''] < 2 ^ LENGTH(64) \<and>
   unat (fst (countParticipants two_participants [''/chatter'', ''rt/chatter'']
           :: 64 word \<times> nat TopicCache)) = 2"
proof -
  have r: "registrations_of two_participants [''/chatter'', ''rt/chatter''] = 2"
    by (simp add: registrations_of_def global_types_def two_participants_eq)
  show ?thesis
    using countParticipants_correct
      [of two_participants "[''/chatter'', ''rt/chatter'']", where ?'w = 64]
    by (simp add: r)
qed

section \<open>The read operations\<close>

text \<open>
  C10. \<^verbatim>\<open>countParticipants\<close>, \<^verbatim>\<open>cloneParticipantTopics\<close> and \<^verbatim>\<open>cloneTopicToTypes\<close> leave the
  cache, both maps, as it was, on every cache and every input (so a lookup of an absent key
  inserts nothing), and \<^verbatim>\<open>cloneParticipantTopics\<close> leaves the location \<^verbatim>\<open>*topics\<close> as it was
  when it returns false.
\<close>

theorem read_operations_pure:
  "snd (countParticipants c fqdns :: 'w::len word \<times> 'g TopicCache) = c \<and>
   snd (snd (cloneParticipantTopics c guid topics)) = c \<and>
   snd (cloneTopicToTypes c) = c \<and>
   (\<not> fst (cloneParticipantTopics c guid topics) \<longrightarrow>
      fst (snd (cloneParticipantTopics c guid topics)) = topics)"
  by (simp add: countParticipants_def countParticipants_loop_cache cloneParticipantTopics_def
      cloneTopicToTypes_def split: option.splits)

theorem read_operations_pure_witness:
  "\<not> fst (cloneParticipantTopics one_registration 2 [''/old'' \<mapsto> [''Old'']]) \<and>
   fst (snd (cloneParticipantTopics one_registration 2 [''/old'' \<mapsto> [''Old'']]))
     = [''/old'' \<mapsto> [''Old'']] \<and>
   snd (snd (cloneParticipantTopics one_registration 2 [''/old'' \<mapsto> [''Old'']]))
     = one_registration \<and>
   snd (countParticipants one_registration [''/rosout''] :: 64 word \<times> nat TopicCache)
     = one_registration"
proof -
  have nf: "\<not> fst (cloneParticipantTopics one_registration 2 [''/old'' \<mapsto> [''Old'']])"
    by (simp add: cloneParticipantTopics_def one_registration_eq)
  show ?thesis
    using nf read_operations_pure
      [of one_registration "[''/rosout'']" 2 "[''/old'' \<mapsto> [''Old'']]", where ?'w = 64]
    by simp
qed

section \<open>The results of removeTopic\<close>

text \<open>
  When \<^verbatim>\<open>removeTopic\<close> returns it has taken one of three paths: the topic is no global key;
  the global half alone ran; both halves ran.
\<close>

lemma removeTopic_cases:
  assumes "removeTopic h2g c k t ty = Inr (b, c')"
  obtains
    (absent) "topic_to_types c t = None" "\<not> b" "c' = c"
  | (skipped) v where "topic_to_types c t = Some v" "ty \<in> set v"
      "\<not> has_local_entry c (h2g k) t" "b"
      "c' = c\<lparr>topic_to_types :=
              (if remove1 ty v = [] then (topic_to_types c)(t := None)
               else (topic_to_types c)(t \<mapsto> remove1 ty v))\<rparr>"
  | (both) v m lv where "topic_to_types c t = Some v" "ty \<in> set v"
      "participant_to_topics c (h2g k) = Some m" "m t = Some lv" "ty \<in> set lv" "b"
      "c' = \<lparr>topic_to_types =
              (if remove1 ty v = [] then (topic_to_types c)(t := None)
               else (topic_to_types c)(t \<mapsto> remove1 ty v)),
            participant_to_topics =
              (if (if remove1 ty lv = [] then m(t := None) else m(t \<mapsto> remove1 ty lv)) = Map.empty
               then (participant_to_topics c)(h2g k := None)
               else (participant_to_topics c)
                      (h2g k \<mapsto> (if remove1 ty lv = [] then m(t := None)
                                  else m(t \<mapsto> remove1 ty lv))))\<rparr>"
proof (cases "topic_to_types c t")
  case None
  with assms have "\<not> b" "c' = c" by (simp_all add: removeTopic_def)
  with None show ?thesis by (rule absent)
next
  case (Some v)
  note gl = this
  show ?thesis
  proof (cases "ty \<in> set v")
    case False
    with assms gl have False by (simp add: removeTopic_def erase_find_def)
    then show ?thesis ..
  next
    case True
    note tyv = this
    show ?thesis
    proof (cases "has_local_entry c (h2g k) t")
      case False
      with assms gl tyv have "b" and
        "c' = c\<lparr>topic_to_types :=
              (if remove1 ty v = [] then (topic_to_types c)(t := None)
               else (topic_to_types c)(t \<mapsto> remove1 ty v))\<rparr>"
        by (auto simp: removeTopic_def erase_find_def Let_def has_local_entry_def
            split: option.splits)
      with gl tyv False show ?thesis by (rule skipped)
    next
      case True
      then obtain m lv where m: "participant_to_topics c (h2g k) = Some m" "m t = Some lv"
        by (auto simp: has_local_entry_def split: option.splits)
      show ?thesis
      proof (cases "ty \<in> set lv")
        case False
        with assms gl tyv m have False
          by (simp add: removeTopic_def erase_find_def Let_def)
        then show ?thesis ..
      next
        case True
        with assms gl tyv m have "b" and
          "c' = \<lparr>topic_to_types =
              (if remove1 ty v = [] then (topic_to_types c)(t := None)
               else (topic_to_types c)(t \<mapsto> remove1 ty v)),
            participant_to_topics =
              (if (if remove1 ty lv = [] then m(t := None) else m(t \<mapsto> remove1 ty lv)) = Map.empty
               then (participant_to_topics c)(h2g k := None)
               else (participant_to_topics c)
                      (h2g k \<mapsto> (if remove1 ty lv = [] then m(t := None)
                                  else m(t \<mapsto> remove1 ty lv))))\<rparr>"
          by (simp_all add: removeTopic_def erase_find_def Let_def)
        with gl tyv m True show ?thesis by (rule both)
      qed
    qed
  qed
qed

lemma no_empty_removeTopic:
  assumes inv: "no_empty_collections c" and rm: "removeTopic h2g c k t ty = Inr (b, c')"
  shows "no_empty_collections c'"
  using rm
proof (cases rule: removeTopic_cases)
  case absent
  with inv show ?thesis by simp
next
  case (skipped v)
  with inv show ?thesis
    by (auto simp: no_empty_collections_def split: if_splits)
next
  case (both v m lv)
  have g: "\<forall>t' v'. topic_to_types c' t' = Some v' \<longrightarrow> v' \<noteq> []"
    using inv both(7) by (auto simp: no_empty_collections_def split: if_splits)
  have m_ok: "\<forall>t' v'. m t' = Some v' \<longrightarrow> v' \<noteq> []"
    using inv both(3) by (auto simp: no_empty_collections_def)
  have l: "\<forall>g' m'. participant_to_topics c' g' = Some m' \<longrightarrow>
             m' \<noteq> Map.empty \<and> (\<forall>t' v'. m' t' = Some v' \<longrightarrow> v' \<noteq> [])"
  proof (intro allI impI)
    fix g' m'
    assume a: "participant_to_topics c' g' = Some m'"
    show "m' \<noteq> Map.empty \<and> (\<forall>t' v'. m' t' = Some v' \<longrightarrow> v' \<noteq> [])"
    proof (cases "g' = h2g k")
      case False
      with a both(7) have "participant_to_topics c g' = Some m'"
        by (simp split: if_splits)
      with inv show ?thesis by (auto simp: no_empty_collections_def)
    next
      case True
      with a both(7) have m': "m' = (if remove1 ty lv = [] then m(t := None)
                                  else m(t \<mapsto> remove1 ty lv))" and ne: "m' \<noteq> Map.empty"
        by (auto split: if_splits)
      from m' m_ok have "\<forall>t' v'. m' t' = Some v' \<longrightarrow> v' \<noteq> []"
        by (auto split: if_splits)
      with ne show ?thesis by simp
    qed
  qed
  from g l show ?thesis by (simp add: no_empty_collections_def)
qed

lemma global_types_stored:
  assumes "topic_to_types c' =
             (if v' = [] then (topic_to_types c)(t := None) else (topic_to_types c)(t \<mapsto> v'))"
  shows "global_types c' t' = (if t' = t then v' else global_types c t')"
  using assms by (simp add: global_types_def)

lemma local_types_stored:
  assumes m: "participant_to_topics c g = Some m"
    and p: "participant_to_topics c' =
             (if (if lv' = [] then m(t := None) else m(t \<mapsto> lv')) = Map.empty
              then (participant_to_topics c)(g := None)
              else (participant_to_topics c)
                     (g \<mapsto> (if lv' = [] then m(t := None) else m(t \<mapsto> lv'))))"
  shows "local_types c' g' t' =
           (if g' = g \<and> t' = t then lv' else local_types c g' t')"
proof (cases "g' = g")
  case False
  with p show ?thesis by (simp add: local_types_def)
next
  case True
  let ?M = "if lv' = [] then m(t := None) else m(t \<mapsto> lv')"
  have M: "(case ?M t' of None \<Rightarrow> [] | Some v \<Rightarrow> v) =
           (if t' = t then lv' else local_types c g t')"
    using m by (simp add: local_types_def)
  show ?thesis
  proof (cases "?M = Map.empty")
    case False
    with p have "participant_to_topics c' g = Some ?M" by simp
    then have "local_types c' g t' = (case ?M t' of None \<Rightarrow> [] | Some v \<Rightarrow> v)"
      by (simp add: local_types_def)
    with M True show ?thesis by simp
  next
    case e: True
    with p have "participant_to_topics c' g = None" by simp
    then have l: "local_types c' g t' = []" by (simp add: local_types_def)
    from e have "?M t' = None" by simp
    then have "(case ?M t' of None \<Rightarrow> [] | Some v \<Rightarrow> v) = []" by simp
    with M have "(if t' = t then lv' else local_types c g t') = []" by simp
    with l True show ?thesis by (auto split: if_splits)
  qed
qed

lemma removeTopic_global_view:
  assumes "removeTopic h2g c k t ty = Inr (True, c')"
  shows "ty \<in> set (global_types c t) \<and>
         global_types c' t' =
           (if t' = t then remove1 ty (global_types c t) else global_types c t')"
  using assms
proof (cases rule: removeTopic_cases)
  case absent
  then show ?thesis by simp
next
  case (skipped v)
  have g: "global_types c t = v" using skipped(1) by (simp add: global_types_def)
  from skipped(5) have "topic_to_types c' =
      (if remove1 ty v = [] then (topic_to_types c)(t := None)
       else (topic_to_types c)(t \<mapsto> remove1 ty v))" by simp
  from global_types_stored [OF this] g skipped(2) show ?thesis by simp
next
  case (both v m lv)
  have g: "global_types c t = v" using both(1) by (simp add: global_types_def)
  from both(7) have "topic_to_types c' =
      (if remove1 ty v = [] then (topic_to_types c)(t := None)
       else (topic_to_types c)(t \<mapsto> remove1 ty v))" by simp
  from global_types_stored [OF this] g both(2) show ?thesis by simp
qed

lemma removeTopic_skipped_view:
  assumes "removeTopic h2g c k t ty = Inr (b, c')" "\<not> has_local_entry c (h2g k) t"
  shows "participant_to_topics c' = participant_to_topics c"
  using assms(1)
proof (cases rule: removeTopic_cases)
  case absent
  then show ?thesis by simp
next
  case (skipped v)
  then show ?thesis by simp
next
  case (both v m lv)
  with assms(2) show ?thesis by (simp add: has_local_entry_def)
qed

lemma removeTopic_local_view:
  assumes "removeTopic h2g c k t ty = Inr (True, c')" "has_local_entry c (h2g k) t"
  shows "ty \<in> set (local_types c (h2g k) t) \<and>
         local_types c' g' t' =
           (if g' = h2g k \<and> t' = t then remove1 ty (local_types c (h2g k) t)
            else local_types c g' t') \<and>
         dom (participant_to_topics c') \<subseteq> dom (participant_to_topics c)"
  using assms(1)
proof (cases rule: removeTopic_cases)
  case absent
  then show ?thesis by simp
next
  case (skipped v)
  with assms(2) show ?thesis by simp
next
  case (both v m lv)
  have l: "local_types c (h2g k) t = lv"
    using both(3,4) by (simp add: local_types_def)
  from both(7) have p: "participant_to_topics c' =
      (if (if remove1 ty lv = [] then m(t := None) else m(t \<mapsto> remove1 ty lv)) = Map.empty
       then (participant_to_topics c)(h2g k := None)
       else (participant_to_topics c)
              (h2g k \<mapsto> (if remove1 ty lv = [] then m(t := None)
                          else m(t \<mapsto> remove1 ty lv))))" by simp
  have d: "dom (participant_to_topics c') \<subseteq> dom (participant_to_topics c)"
    using both(3) by (subst p) (auto split: if_splits)
  from local_types_stored [OF both(3) p, of g' t'] l both(5) d show ?thesis by simp
qed


lemma removeTopic_unchanged:
  "removeTopic h2g c k t ty = Inr (False, c') \<Longrightarrow> c' = c"
  by (erule removeTopic_cases) simp_all

lemma removeTopic_dom_subset:
  assumes "removeTopic h2g c k t ty = Inr (b, c')"
  shows "dom (participant_to_topics c') \<subseteq> dom (participant_to_topics c)"
proof (cases "b \<and> has_local_entry c (h2g k) t")
  case True
  with assms removeTopic_local_view [of h2g c k t ty c'] show ?thesis by simp
next
  case False
  then consider "\<not> b" | "\<not> has_local_entry c (h2g k) t" by blast
  then show ?thesis
  proof cases
    case 1
    with assms removeTopic_unchanged [of h2g c k t ty c'] show ?thesis by simp
  next
    case 2
    with assms removeTopic_skipped_view [of h2g c k t ty b c'] show ?thesis by simp
  qed
qed

lemma removeTopic_returned_flag:
  "removeTopic h2g c k t ty = Inr (b, c') \<Longrightarrow> b = (topic_to_types c t \<noteq> None)"
  by (erule removeTopic_cases) simp_all

lemma no_local_entry_no_types: "\<not> has_local_entry c g t \<Longrightarrow> local_types c g t = []"
  by (auto simp: local_types_def has_local_entry_def split: option.splits)

lemma local_member_has_entry:
  "ty \<in> set (local_types c g t) \<Longrightarrow> has_local_entry c g t"
  by (cases "has_local_entry c g t") (simp_all add: no_local_entry_no_types)


text \<open>
  C2. The claim is that in every reachable cache the two erases of \<^verbatim>\<open>removeTopic\<close> find the
  type name. The code does not ensure it. In the reachable cache where participant 1 has
  registered \<^verbatim>\<open>String\<close> on \<^verbatim>\<open>/chatter\<close>, removing \<^verbatim>\<open>Int32\<close> from that topic passes the
  topic-existence check and erases the end iterator of the global vector. In the reachable
  cache where participant 2 has also registered \<^verbatim>\<open>Int32\<close>, participant 1 removing \<^verbatim>\<open>Int32\<close>
  finds it in the global vector, passes the guard of the local half, and erases the end
  iterator of its own vector.
\<close>

theorem removeTopic_erases_end_iterator:
  "reachable id one_registration \<and>
   topic_to_types one_registration ''/chatter'' = Some [''String''] \<and>
   removeTopic id one_registration 1 ''/chatter'' ''Int32'' = Inl UndefinedBehaviour \<and>
   reachable id two_participants \<and>
   ''Int32'' \<in> set (global_types two_participants ''/chatter'') \<and>
   has_local_entry two_participants 1 ''/chatter'' \<and>
   ''Int32'' \<notin> set (local_types two_participants 1 ''/chatter'') \<and>
   removeTopic id two_participants 1 ''/chatter'' ''Int32'' = Inl UndefinedBehaviour"
  by (simp add: reachable_one_registration reachable_two_participants)
     (simp add: one_registration_eq two_participants_eq removeTopic_def erase_find_def Let_def
        global_types_def local_types_def has_local_entry_def)

text \<open>
  C3. The claim is that \<^verbatim>\<open>removeTopic\<close> returns, on every cache and input, true when one
  occurrence of the type name was removed from the global TypeList and false otherwise,
  whatever the local half does. Where it returns, the flag is right
  (\<open>removeTopic_returned_flag\<close>), but it does not return on every input. With \<^verbatim>\<open>String\<close> and
  \<^verbatim>\<open>Int32\<close> on \<^verbatim>\<open>/chatter\<close>, removing \<^verbatim>\<open>Float64\<close> removes nothing from the global list, and
  the result is not false: the end iterator is erased. With the two types registered by
  participants 1 and 2, participant 2 removing \<^verbatim>\<open>String\<close> has the global removal done and
  then erases the end iterator of its local vector, while the same removal requested by
  participant 3, which holds nothing, returns true.
\<close>

theorem removeTopic_no_result:
  "topic_to_types two_types ''/chatter'' = Some [''String'', ''Int32''] \<and>
   removeTopic id two_types 1 ''/chatter'' ''Float64'' = Inl UndefinedBehaviour \<and>
   removeTopic id two_types 1 ''/chatter'' ''Float64'' \<noteq> Inr (False, two_types) \<and>
   topic_to_types two_participants ''/chatter'' = Some [''String'', ''Int32''] \<and>
   local_types two_participants 2 ''/chatter'' = [''Int32''] \<and>
   removeTopic id two_participants 2 ''/chatter'' ''String'' = Inl UndefinedBehaviour \<and>
   removeTopic id two_participants 3 ''/chatter'' ''String''
     = Inr (True, two_participants\<lparr>topic_to_types := [''/chatter'' \<mapsto> [''Int32'']]\<rparr>)"
  by (simp add: two_types_eq two_participants_eq removeTopic_def erase_find_def Let_def
        local_types_def)

section \<open>No empty collection is kept\<close>

lemma no_empty_initial: "no_empty_collections empty_cache"
  by (simp add: no_empty_collections_def empty_cache_def)

lemma no_empty_addTopic:
  "no_empty_collections c \<Longrightarrow> no_empty_collections (snd (addTopic h2g c k t ty))"
  by (auto simp: no_empty_collections_def addTopic_global addTopic_local at_guid_def
      split: if_splits option.splits)

lemma reachable_no_empty: "reachable h2g c \<Longrightarrow> no_empty_collections c"
  by (induction rule: reachable.induct)
     (auto intro: no_empty_initial no_empty_addTopic no_empty_removeTopic)

section \<open>addTopic followed by removeTopic\<close>

lemma remove1_snoc_Nil: "remove1 x (xs @ [x]) = [] \<longleftrightarrow> xs = []"
proof
  assume "remove1 x (xs @ [x]) = []"
  then have "mset (remove1 x (xs @ [x])) = {#}" by simp
  then show "xs = []" by simp
qed simp

lemma removeTopic_after_addTopic:
  "removeTopic h2g (snd (addTopic h2g c k t ty)) k t ty =
     Inr (True,
       \<lparr>topic_to_types =
          (if global_types c t = [] then (topic_to_types c)(t := None)
           else (topic_to_types c)(t \<mapsto> remove1 ty (global_types c t @ [ty]))),
        participant_to_topics =
          (if (if local_types c (h2g k) t = []
               then (at_guid (participant_to_topics c) (h2g k))(t := None)
               else (at_guid (participant_to_topics c) (h2g k))
                      (t \<mapsto> remove1 ty (local_types c (h2g k) t @ [ty]))) = Map.empty
           then (participant_to_topics c)(h2g k := None)
           else (participant_to_topics c)
                  (h2g k \<mapsto>
                    (if local_types c (h2g k) t = []
                     then (at_guid (participant_to_topics c) (h2g k))(t := None)
                     else (at_guid (participant_to_topics c) (h2g k))
                            (t \<mapsto> remove1 ty (local_types c (h2g k) t @ [ty])))))\<rparr>)"
  by (simp add: removeTopic_def addTopic_global addTopic_local erase_find_def Let_def
      remove1_snoc_Nil)

text \<open>
  C5, as the code has it. In a cache without empty collections (every reachable cache is
  one), \<^verbatim>\<open>addTopic\<close> followed by \<^verbatim>\<open>removeTopic\<close> of the same participant, topic and type
  returns true and restores both maps up to the order of the two TypeLists written to: the
  keys are the ones before the add at both levels, so no empty entry is left behind; every
  list holds the type names it held; the global list of the topic and the participant's
  local one have lost their first occurrence of the type name and have it at the end
  instead; every other list is as it was. When the type name occurs in neither of the two
  lists before the add, the cache is exactly the one before the add.
\<close>

theorem addTopic_removeTopic_round_trip:
  assumes inv: "no_empty_collections c"
  shows "\<exists>c'. removeTopic h2g (snd (addTopic h2g c k t ty)) k t ty = Inr (True, c') \<and>
           same_up_to_order c c' \<and>
           (\<forall>t'. global_types c' t' =
              (if t' = t then remove1 ty (global_types c t @ [ty]) else global_types c t')) \<and>
           (\<forall>g' t'. local_types c' g' t' =
              (if g' = h2g k \<and> t' = t then remove1 ty (local_types c (h2g k) t @ [ty])
               else local_types c g' t')) \<and>
           (ty \<notin> set (global_types c t) \<and> ty \<notin> set (local_types c (h2g k) t) \<longrightarrow> c' = c)"
proof -
  define G where "G = global_types c t"
  define L where "L = local_types c (h2g k) t"
  define M where "M = at_guid (participant_to_topics c) (h2g k)"
  define G' where "G' = remove1 ty (G @ [ty])"
  define L' where "L' = remove1 ty (L @ [ty])"
  define c' where "c' =
       \<lparr>topic_to_types =
          (if G = [] then (topic_to_types c)(t := None) else (topic_to_types c)(t \<mapsto> G')),
        participant_to_topics =
          (if (if L = [] then M(t := None) else M(t \<mapsto> L')) = Map.empty
           then (participant_to_topics c)(h2g k := None)
           else (participant_to_topics c)
                  (h2g k \<mapsto> (if L = [] then M(t := None) else M(t \<mapsto> L'))))\<rparr>"
  have rm: "removeTopic h2g (snd (addTopic h2g c k t ty)) k t ty = Inr (True, c')"
    unfolding c'_def G_def L_def M_def G'_def L'_def by (rule removeTopic_after_addTopic)
  have Gnone: "topic_to_types c t = (if G = [] then None else Some G)"
    using inv by (auto simp: G_def global_types_def no_empty_collections_def split: option.splits)
  have Mt: "M t = (if L = [] then None else Some L)"
    using inv
    by (auto simp: L_def M_def local_types_def at_guid_def no_empty_collections_def
        split: option.splits)
  have Mnone: "participant_to_topics c (h2g k) = (if M = Map.empty then None else Some M)"
    using inv by (auto simp: M_def at_guid_def no_empty_collections_def split: option.splits)
  have T: "topic_to_types c' =
             (if G = [] then topic_to_types c else (topic_to_types c)(t \<mapsto> G'))"
    using Gnone by (auto simp: c'_def)
  have M1: "L = [] \<Longrightarrow> M(t := None) = M"
    using Mt by auto
  have P: "participant_to_topics c' =
             (if L = [] then participant_to_topics c
              else (participant_to_topics c)(h2g k \<mapsto> M(t \<mapsto> L')))"
  proof (cases "L = []")
    case True
    with M1 have "participant_to_topics c' =
        (if M = Map.empty then (participant_to_topics c)(h2g k := None)
         else (participant_to_topics c)(h2g k \<mapsto> M))"
      by (simp add: c'_def)
    with Mnone True show ?thesis by (auto split: if_splits)
  next
    case False
    then show ?thesis by (simp add: c'_def)
  qed
  have msG: "mset G' = mset G" and msL: "mset L' = mset L"
    by (simp_all add: G'_def L'_def)
  have PL: "L \<noteq> [] \<Longrightarrow> participant_to_topics c (h2g k) = Some M"
    using Mt Mnone by (auto split: if_splits)
  have 1: "same_up_to_order c c'"
    unfolding same_up_to_order_def
  proof (intro conjI allI)
    fix t'
    show "map_option mset (topic_to_types c t') = map_option mset (topic_to_types c' t')"
      using Gnone msG by (simp add: T)
  next
    fix g'
    show "rel_option (\<lambda>m m'. \<forall>t. map_option mset (m t) = map_option mset (m' t))
            (participant_to_topics c g') (participant_to_topics c' g')"
    proof (cases "L \<noteq> [] \<and> g' = h2g k")
      case True
      with PL Mt msL show ?thesis by (simp add: P)
    next
      case False
      then have "participant_to_topics c' g' = participant_to_topics c g'"
        by (auto simp: P)
      then show ?thesis by (simp add: option.rel_refl)
    qed
  qed
  have 2: "global_types c' t' = (if t' = t then G' else global_types c t')" for t'
    using Gnone by (auto simp: global_types_def T G'_def G_def)
  have 3: "local_types c' g' t' =
             (if g' = h2g k \<and> t' = t then L' else local_types c g' t')" for g' t'
  proof (cases "L = []")
    case True
    then have "L' = []" "local_types c (h2g k) t = []"
      by (simp_all add: L'_def L_def)
    with True show ?thesis by (auto simp: local_types_def P)
  next
    case False
    from PL [OF False] False show ?thesis
      by (auto simp: local_types_def P)
  qed
  have 4: "c' = c" if "ty \<notin> set G" "ty \<notin> set L"
  proof -
    from that have e: "G' = G" "L' = L" by (simp_all add: G'_def L'_def remove1_append)
    have "topic_to_types c' = topic_to_types c"
      using Gnone by (auto simp: T e)
    moreover have "participant_to_topics c' = participant_to_topics c"
    proof (cases "L = []")
      case True
      then show ?thesis by (simp add: P)
    next
      case False
      with Mt have "M(t \<mapsto> L) = M" by auto
      with PL [OF False] False show ?thesis by (auto simp: P e)
    qed
    ultimately show ?thesis by simp
  qed
  from rm 1 2 3 4 show ?thesis
    unfolding G_def L_def G'_def L'_def by blast
qed


theorem addTopic_removeTopic_round_trip_witness:
  "no_empty_collections one_registration \<and>
   ''Int32'' \<notin> set (global_types one_registration ''/chatter'') \<and>
   ''Int32'' \<notin> set (local_types one_registration 2 ''/chatter'') \<and>
   removeTopic id (snd (addTopic id one_registration 2 ''/chatter'' ''Int32'')) 2
     ''/chatter'' ''Int32'' = Inr (True, one_registration)"
proof -
  have inv: "no_empty_collections one_registration"
    by (rule reachable_no_empty [OF reachable_one_registration])
  have n: "''Int32'' \<notin> set (global_types one_registration ''/chatter'')"
    "''Int32'' \<notin> set (local_types one_registration 2 ''/chatter'')"
    by (simp_all add: global_types_def local_types_def one_registration_eq)
  from addTopic_removeTopic_round_trip [OF inv, of id 2 "''/chatter''" "''Int32''"] n inv
  show ?thesis
    by auto
qed

text \<open>
  C5 as stated fails: in the reachable cache where participant 1 holds \<^verbatim>\<open>String\<close> and
  \<^verbatim>\<open>Int32\<close> on \<^verbatim>\<open>/chatter\<close>, adding \<^verbatim>\<open>String\<close> again and removing it leaves the lists in the
  order \<^verbatim>\<open>Int32\<close>, \<^verbatim>\<open>String\<close>.
\<close>

theorem addTopic_removeTopic_reorders:
  "reachable id two_types \<and> no_empty_collections two_types \<and>
   removeTopic id (snd (addTopic id two_types 1 ''/chatter'' ''String'')) 1
     ''/chatter'' ''String'' = Inr (True, reordered) \<and>
   topic_to_types two_types ''/chatter'' = Some [''String'', ''Int32''] \<and>
   topic_to_types reordered ''/chatter'' = Some [''Int32'', ''String''] \<and>
   reordered \<noteq> two_types"
proof -
  have rm: "removeTopic id (snd (addTopic id two_types 1 ''/chatter'' ''String'')) 1
     ''/chatter'' ''String'' = Inr (True, reordered)"
    by (simp add: removeTopic_after_addTopic)
       (simp add: two_types_eq reordered_def global_types_def local_types_def at_guid_def)
  have a: "topic_to_types two_types ''/chatter'' = Some [''String'', ''Int32'']"
    by (simp add: two_types_eq)
  have b: "topic_to_types reordered ''/chatter'' = Some [''Int32'', ''String'']"
    by (simp add: reordered_def)
  from a b have ne: "reordered \<noteq> two_types" by auto
  from reachable_two_types reachable_no_empty [OF reachable_two_types] rm a b ne
  show ?thesis by simp
qed

section \<open>The global list against the participants' lists\<close>

lemma local_types_outside_dom:
  "g \<notin> dom (participant_to_topics c) \<Longrightarrow> local_types c g t = []"
  by (auto simp: local_types_def split: option.splits)

lemma participants_total_over:
  assumes "finite F" "dom (participant_to_topics c) \<subseteq> F"
  shows "participants_total c t = (\<Sum>g\<in>F. mset (local_types c g t))"
  unfolding participants_total_def
  by (rule sum.mono_neutral_left) (use assms in \<open>auto simp: local_types_outside_dom\<close>)

lemma total_split:
  assumes "finite F" "dom (participant_to_topics c) \<subseteq> F" "g \<in> F"
  shows "participants_total c t =
           mset (local_types c g t) + (\<Sum>g'\<in>F - {g}. mset (local_types c g' t))"
  using assms by (simp add: participants_total_over [of F] sum.remove)

lemma total_step:
  assumes fin: "finite (dom (participant_to_topics c))"
    and dom': "dom (participant_to_topics c') \<subseteq> insert g (dom (participant_to_topics c))"
    and other: "\<And>g'. g' \<noteq> g \<Longrightarrow> local_types c' g' t = local_types c g' t"
  shows "\<exists>R. participants_total c t = mset (local_types c g t) + R \<and>
             participants_total c' t = mset (local_types c' g t) + R"
proof -
  let ?F = "insert g (dom (participant_to_topics c))"
  have F: "finite ?F" "g \<in> ?F" "dom (participant_to_topics c) \<subseteq> ?F"
    using fin by auto
  have 1: "participants_total c t =
            mset (local_types c g t) + (\<Sum>g'\<in>?F - {g}. mset (local_types c g' t))"
    using F(1) F(3) F(2) by (rule total_split)
  have 2: "participants_total c' t =
            mset (local_types c' g t) + (\<Sum>g'\<in>?F - {g}. mset (local_types c' g' t))"
    using F(1) dom' F(2) by (rule total_split)
  have "(\<Sum>g'\<in>?F - {g}. mset (local_types c' g' t)) =
        (\<Sum>g'\<in>?F - {g}. mset (local_types c g' t))"
    by (rule sum.cong) (simp_all add: other)
  with 1 2 show ?thesis by auto
qed

lemma dom_addTopic:
  "dom (participant_to_topics (snd (addTopic h2g c k t ty))) =
     insert (h2g k) (dom (participant_to_topics c))"
  by (simp add: addTopic_local)

lemma total_addTopic:
  assumes "finite (dom (participant_to_topics c))"
  shows "participants_total (snd (addTopic h2g c k t ty)) t' =
           participants_total c t' + (if t' = t then {#ty#} else {#})"
proof -
  obtain R where "participants_total c t' = mset (local_types c (h2g k) t') + R"
    "participants_total (snd (addTopic h2g c k t ty)) t' =
       mset (local_types (snd (addTopic h2g c k t ty)) (h2g k) t') + R"
    using total_step [OF assms, of "snd (addTopic h2g c k t ty)" "h2g k" t']
    by (auto simp: dom_addTopic local_types_addTopic)
  then show ?thesis by (simp add: local_types_addTopic)
qed


lemma reachable_finite: "reachable h2g c \<Longrightarrow> finite (dom (participant_to_topics c))"
proof (induction rule: reachable.induct)
  case initial
  show ?case by (simp add: empty_cache_def)
next
  case (add c k t ty)
  then show ?case by (simp add: dom_addTopic)
next
  case (remove c k t ty b c')
  from removeTopic_dom_subset [OF remove(2)] remove(3) show ?case
    by (rule finite_subset)
qed

lemma participants_total_same_map:
  "participant_to_topics c' = participant_to_topics c \<Longrightarrow>
   participants_total c' t = participants_total c t"
  by (simp add: participants_total_def local_types_def)

lemma total_removeTopic:
  assumes fin: "finite (dom (participant_to_topics c))"
    and rm: "removeTopic h2g c k t ty = Inr (True, c')"
    and loc: "has_local_entry c (h2g k) t"
  shows "ty \<in># participants_total c t \<and>
         participants_total c' t' =
           participants_total c t' - (if t' = t then {#ty#} else {#})"
proof -
  note v = removeTopic_local_view [OF rm loc]
  have d: "dom (participant_to_topics c') \<subseteq> insert (h2g k) (dom (participant_to_topics c))"
    using v [of "h2g k" t] by auto
  have o: "\<And>g' t'. g' \<noteq> h2g k \<Longrightarrow> local_types c' g' t' = local_types c g' t'"
    using v by simp
  obtain R where R: "participants_total c t' = mset (local_types c (h2g k) t') + R"
    "participants_total c' t' = mset (local_types c' (h2g k) t') + R"
    using total_step [OF fin d o, of t'] by blast
  obtain R' where R': "participants_total c t = mset (local_types c (h2g k) t) + R'"
    using total_step [OF fin d o, of t] by blast
  have in_l: "ty \<in># mset (local_types c (h2g k) t)"
    using v [of "h2g k" t] by simp
  with R' have 1: "ty \<in># participants_total c t" by simp
  have 2: "participants_total c' t' =
             participants_total c t' - (if t' = t then {#ty#} else {#})"
  proof (cases "t' = t")
    case False
    with R v [of "h2g k" t'] show ?thesis by simp
  next
    case True
    with R v [of "h2g k" t] in_l show ?thesis by simp
  qed
  from 1 2 show ?thesis ..
qed

lemma mset_diff_right_mono: "(A::'a multiset) \<subseteq># B \<Longrightarrow> A - C \<subseteq># B - C"
  by (simp add: subseteq_mset_def diff_le_mono)

lemma reachable_global_le_total:
  "reachable h2g c \<Longrightarrow> mset (global_types c t) \<subseteq># participants_total c t"
proof (induction arbitrary: t rule: reachable.induct)
  case initial
  show ?case by (simp add: empty_cache_def global_types_def)
next
  case (add c k t0 ty)
  from add.IH [of t] reachable_finite [OF add.hyps] show ?case
    by (auto simp: total_addTopic global_types_addTopic)
next
  case (remove c k t0 ty b c')
  note fin = reachable_finite [OF remove.hyps(1)]
  show ?case
  proof (cases b)
    case False
    with remove.hyps(2) removeTopic_unchanged [of h2g c k t0 ty c'] remove.IH [of t]
    show ?thesis by simp
  next
    case True
    with remove.hyps(2) have rm: "removeTopic h2g c k t0 ty = Inr (True, c')" by simp
    note g = removeTopic_global_view [OF rm, of t]
    show ?thesis
    proof (cases "has_local_entry c (h2g k) t0")
      case False
      from removeTopic_skipped_view [OF rm False]
      have "participants_total c' t = participants_total c t"
        by (rule participants_total_same_map)
      moreover have "mset (global_types c' t) \<subseteq># mset (global_types c t)"
        using g by simp
      ultimately show ?thesis using remove.IH [of t]
        by (metis subset_mset.order_trans)
    next
      case l: True
      note tot = total_removeTopic [OF fin rm l, of t]
      show ?thesis
      proof (cases "t = t0")
        case False
        with g tot remove.IH [of t] show ?thesis by simp
      next
        case True
        with g tot have
          "mset (global_types c' t) = mset (global_types c t) - {#ty#}"
          "participants_total c' t = participants_total c t - {#ty#}"
          by simp_all
        with remove.IH [of t] show ?thesis
          by (simp add: mset_diff_right_mono)
      qed
    qed
  qed
qed

lemma reachable_matched_reachable: "reachable_matched h2g c \<Longrightarrow> reachable h2g c"
  by (induction rule: reachable_matched.induct) (auto intro: reachable.intros)

lemma matched_total_eq:
  "reachable_matched h2g c \<Longrightarrow> participants_total c t = mset (global_types c t)"
proof (induction arbitrary: t rule: reachable_matched.induct)
  case initial
  show ?case by (simp add: empty_cache_def global_types_def participants_total_def)
next
  case (add c k t0 ty)
  from add.IH [of t] reachable_finite [OF reachable_matched_reachable [OF add.hyps]]
  show ?case
    by (auto simp: total_addTopic global_types_addTopic)
next
  case (remove c ty k t0 b c')
  note fin = reachable_finite [OF reachable_matched_reachable [OF remove.hyps(1)]]
  show ?case
  proof (cases b)
    case False
    with remove.hyps(3) removeTopic_unchanged [of h2g c k t0 ty c'] remove.IH [of t]
    show ?thesis by simp
  next
    case True
    with remove.hyps(3) have rm: "removeTopic h2g c k t0 ty = Inr (True, c')" by simp
    note g = removeTopic_global_view [OF rm, of t]
    note tot = total_removeTopic [OF fin rm local_member_has_entry [OF remove.hyps(2)], of t]
    from g tot remove.IH [of t] show ?thesis by simp
  qed
qed

lemma local_le_total:
  assumes "finite (dom (participant_to_topics c))"
  shows "mset (local_types c g t) \<subseteq># participants_total c t"
proof -
  have "participants_total c t = mset (local_types c g t) +
          (\<Sum>g'\<in>insert g (dom (participant_to_topics c)) - {g}. mset (local_types c g' t))"
    by (rule total_split) (use assms in auto)
  then show ?thesis by simp
qed


text \<open>
  A topic that is a global key is held by at least one participant. The converse can fail:
  a removal requested under a participant that holds no entry takes the topic from the
  global map and leaves the holder's entry.
\<close>

lemma global_key_has_participant_entry:
  assumes r: "reachable h2g c" and k: "t \<in> dom (topic_to_types c)"
  shows "\<exists>g. local_types c g t \<noteq> []"
proof (rule ccontr)
  assume "\<not> (\<exists>g. local_types c g t \<noteq> [])"
  then have "participants_total c t = {#}"
    by (simp add: participants_total_def)
  with reachable_global_le_total [OF r, of t] have "global_types c t = []"
    by simp
  moreover from reachable_no_empty [OF r] k have "global_types c t \<noteq> []"
    by (auto simp: no_empty_collections_def global_types_def)
  ultimately show False by simp
qed





section \<open>Keys and registrations\<close>

text \<open>
  C7, as the code has it. In every cache reachable from the empty one by calls of
  \<^verbatim>\<open>addTopic\<close> and calls of \<^verbatim>\<open>removeTopic\<close> that return, every global topic key maps to a
  non-empty TypeList, every participant key maps to a non-empty map whose topic keys map to
  non-empty TypeLists, and every topic that is a global key is registered by at least one
  participant, that is, some participant's local TypeList of the topic is non-empty. In every
  cache reachable by calls of \<^verbatim>\<open>addTopic\<close> and returning calls of \<^verbatim>\<open>removeTopic\<close> whose
  participant holds the type name in its local TypeList of the topic, a topic is a global key
  exactly when some participant's local TypeList of it is non-empty.
\<close>

theorem keys_and_registrations:
  "(reachable h2g c \<longrightarrow>
      no_empty_collections c \<and>
      (\<forall>t. t \<in> dom (topic_to_types c) \<longrightarrow> (\<exists>g. local_types c g t \<noteq> []))) \<and>
   (reachable_matched h2g c \<longrightarrow>
      (\<forall>t. t \<in> dom (topic_to_types c) \<longleftrightarrow> (\<exists>g. local_types c g t \<noteq> [])))"
proof (intro conjI impI allI)
  assume "reachable h2g c"
  then show "no_empty_collections c" by (rule reachable_no_empty)
next
  fix t assume "reachable h2g c" "t \<in> dom (topic_to_types c)"
  then show "\<exists>g. local_types c g t \<noteq> []" by (rule global_key_has_participant_entry)
next
  fix t assume m: "reachable_matched h2g c"
  then have r: "reachable h2g c" by (rule reachable_matched_reachable)
  show "t \<in> dom (topic_to_types c) \<longleftrightarrow> (\<exists>g. local_types c g t \<noteq> [])"
  proof
    assume "t \<in> dom (topic_to_types c)"
    with r show "\<exists>g. local_types c g t \<noteq> []" by (rule global_key_has_participant_entry)
  next
    assume "\<exists>g. local_types c g t \<noteq> []"
    then obtain g where g: "local_types c g t \<noteq> []" ..
    have "finite (dom (participant_to_topics c))" using r by (rule reachable_finite)
    then have "mset (local_types c g t) \<subseteq># participants_total c t" by (rule local_le_total)
    with matched_total_eq [OF m, of t]
    have "mset (local_types c g t) \<subseteq># mset (global_types c t)" by simp
    with g have "global_types c t \<noteq> []" by auto
    then show "t \<in> dom (topic_to_types c)"
      by (auto simp: global_types_def split: option.splits)
  qed
qed

text \<open>
  The witness is at the cache reached from \<open>two_participants\<close> when participant 1 withdraws
  its \<^verbatim>\<open>String\<close>: the key of participant 1 is gone, the topic is still a global key, and
  participant 2 still holds a registration for it; \<^verbatim>\<open>/rosout\<close> is no key and nobody holds it.
\<close>

theorem keys_and_registrations_witness:
  "removeTopic id two_participants 1 ''/chatter'' ''String'' = Inr (True, one_withdrawn) \<and>
   reachable id one_withdrawn \<and> reachable_matched id one_withdrawn \<and>
   no_empty_collections one_withdrawn \<and>
   participant_to_topics one_withdrawn 1 = None \<and>
   ''/chatter'' \<in> dom (topic_to_types one_withdrawn) \<and>
   (\<exists>g. local_types one_withdrawn g ''/chatter'' \<noteq> []) \<and>
   local_types one_withdrawn 2 ''/chatter'' = [''Int32''] \<and>
   ''/rosout'' \<notin> dom (topic_to_types one_withdrawn) \<and>
   \<not> (\<exists>g. local_types one_withdrawn g ''/rosout'' \<noteq> [])"
proof -
  have m: "reachable_matched id one_withdrawn"
    by (rule reachable_matched_one_withdrawn)
  then have r: "reachable id one_withdrawn"
    by (rule reachable_matched_reachable)
  have k: "''/chatter'' \<in> dom (topic_to_types one_withdrawn)"
    "''/rosout'' \<notin> dom (topic_to_types one_withdrawn)"
    "participant_to_topics one_withdrawn 1 = None"
    "local_types one_withdrawn 2 ''/chatter'' = [''Int32'']"
    by (simp_all add: one_withdrawn_def local_types_def)
  from keys_and_registrations [of id one_withdrawn] m r k
  have "no_empty_collections one_withdrawn"
    "\<exists>g. local_types one_withdrawn g ''/chatter'' \<noteq> []"
    "\<not> (\<exists>g. local_types one_withdrawn g ''/rosout'' \<noteq> [])"
    by blast+
  with removeTopic_two_participants_own m r k show ?thesis by simp
qed

text \<open>
  C7 as stated fails: from the cache where participant 1 has registered \<^verbatim>\<open>String\<close> on
  \<^verbatim>\<open>/chatter\<close>, a removal of \<^verbatim>\<open>String\<close> requested under participant 2 returns true, empties
  the global vector and erases the topic key, and skips the local half. In the cache reached,
  participant 1 still holds its registration for the topic, and the topic is no global key.
\<close>

theorem registration_without_global_key:
  "removeTopic id one_registration 2 ''/chatter'' ''String'' = Inr (True, ghost_entry) \<and>
   reachable id ghost_entry \<and>
   local_types ghost_entry 1 ''/chatter'' = [''String''] \<and>
   ''/chatter'' \<notin> dom (topic_to_types ghost_entry)"
proof -
  have r: "reachable id ghost_entry"
    by (rule reachable.remove
        [OF reachable_one_registration removeTopic_one_registration_other_participant])
  have l: "local_types ghost_entry 1 ''/chatter'' = [''String'']"
    "''/chatter'' \<notin> dom (topic_to_types ghost_entry)"
    by (simp_all add: local_types_def ghost_entry_def)
  from removeTopic_one_registration_other_participant r l show ?thesis by simp
qed

end
